theory Spec2Isabelle
  imports Main
begin

section \<open>JavaScript values used by the trigger\<close>

text \<open>
  The node reads its parameters as JavaScript values. The primitive values are modelled:
  numbers are the integer-valued numbers and \<open>NaN\<close> (fractions and infinities are left
  out), strings are byte strings.
\<close>

datatype jsnum = NaN | Num int

datatype jsval = JUndefined | JNull | JBool bool | JNum jsnum | JStr string

text \<open>The condition of \<open>if (v)\<close> and of \<open>v || w\<close>.\<close>

fun truthy :: "jsval \<Rightarrow> bool" where
  "truthy JUndefined = False"
| "truthy JNull = False"
| "truthy (JBool b) = b"
| "truthy (JNum NaN) = False"
| "truthy (JNum (Num n)) = (n \<noteq> 0)"
| "truthy (JStr s) = (s \<noteq> [])"

text \<open>\<open>typeof v === 'number'\<close>\<close>

fun is_number :: "jsval \<Rightarrow> bool" where
  "is_number (JNum x) = True"
| "is_number v = False"

text \<open>\<open>x < k\<close> and \<open>x > k\<close> on numbers: every comparison with \<open>NaN\<close> is false.\<close>

fun num_lt :: "jsnum \<Rightarrow> int \<Rightarrow> bool" where
  "num_lt NaN k = False"
| "num_lt (Num n) k = (n < k)"

fun num_gt :: "jsnum \<Rightarrow> int \<Rightarrow> bool" where
  "num_gt NaN k = False"
| "num_gt (Num n) k = (n > k)"

fun Math_max :: "jsnum \<Rightarrow> jsnum \<Rightarrow> jsnum" where
  "Math_max (Num a) (Num b) = Num (max a b)"
| "Math_max x y = NaN"

fun num_times :: "jsnum \<Rightarrow> int \<Rightarrow> jsnum" where
  "num_times NaN k = NaN"
| "num_times (Num n) k = Num (n * k)"

text \<open>\<open>v || w\<close>\<close>

definition js_or :: "jsval \<Rightarrow> jsval \<Rightarrow> jsval" where
  "js_or v w = (if truthy v then v else w)"

subsection \<open>Rendering values in template literals\<close>

definition digit_char :: "nat \<Rightarrow> char" where
  "digit_char d = ''0123456789'' ! d"

fun string_of_nat :: "nat \<Rightarrow> string" where
  "string_of_nat n =
     (if n < 10 then [digit_char n]
      else string_of_nat (n div 10) @ [digit_char (n mod 10)])"

declare string_of_nat.simps [simp del]

definition string_of_int :: "int \<Rightarrow> string" where
  "string_of_int i =
     (if i < 0 then CHR ''-'' # string_of_nat (nat (- i)) else string_of_nat (nat i))"

text \<open>\<open>`${v}`\<close>\<close>

fun to_string :: "jsval \<Rightarrow> string" where
  "to_string JUndefined = ''undefined''"
| "to_string JNull = ''null''"
| "to_string (JBool b) = (if b then ''true'' else ''false'')"
| "to_string (JNum NaN) = ''NaN''"
| "to_string (JNum (Num n)) = string_of_int n"
| "to_string (JStr s) = s"

text \<open>\<open>xs.join(sep)\<close>\<close>

fun join :: "string \<Rightarrow> string list \<Rightarrow> string" where
  "join sep [] = []"
| "join sep [x] = x"
| "join sep (x # y # ys) = x @ sep @ join sep (y # ys)"

subsection \<open>\<open>encodeURIComponent\<close>\<close>

text \<open>
  Every byte other than the unreserved characters \<open>A-Z a-z 0-9 - _ . ! ~ * ' ( )\<close> is
  written as \<open>%XX\<close> with upper-case hexadecimal digits. A string here is the UTF-8 byte
  sequence of the JavaScript string.
\<close>

definition unreserved :: "char \<Rightarrow> bool" where
  "unreserved c =
     (c \<in> set ''ABCDEFGHIJKLMNOPQRSTUVWXYZabcdefghijklmnopqrstuvwxyz0123456789-_.!~*()''
      \<or> c = CHR 0x27)"

definition hex_char :: "nat \<Rightarrow> char" where
  "hex_char d = ''0123456789ABCDEF'' ! d"

definition percent_byte :: "char \<Rightarrow> string" where
  "percent_byte c =
     (let n = (of_char c :: nat) in [CHR ''%'', hex_char (n div 16), hex_char (n mod 16)])"

definition encodeURIComponent :: "string \<Rightarrow> string" where
  "encodeURIComponent s = concat (map (\<lambda>c. if unreserved c then [c] else percent_byte c) s)"

section \<open>Errors\<close>

text \<open>
  The two error classes the node constructs, the \<open>TypeError\<close> of the runtime, and
  \<open>Thrown t\<close> for a value raised by a collaborator (transport, sink), where \<open>t\<close> is the
  text that \<open>error?.message || error\<close> renders for it.
\<close>

datatype js_error =
    NodeOperationError string
  | NodeApiError string
  | TypeError string
  | Thrown string

text \<open>\<open>`${error?.message || error}`\<close>: the message, or the error's name when it is empty.\<close>

fun error_text :: "js_error \<Rightarrow> string" where
  "error_text (NodeOperationError m) = (if m = [] then ''NodeOperationError'' else m)"
| "error_text (NodeApiError m) = (if m = [] then ''NodeApiError'' else m)"
| "error_text (TypeError m) = (if m = [] then ''TypeError'' else m)"
| "error_text (Thrown t) = t"

definition bind_err :: "'e + 'a \<Rightarrow> ('a \<Rightarrow> 'e + 'b) \<Rightarrow> 'e + 'b" where
  "bind_err r f = (case r of Inl e \<Rightarrow> Inl e | Inr x \<Rightarrow> f x)"

section \<open>Configuration\<close>

text \<open>
  \<open>options\<close> is the \<open>IDataObject\<close> returned by \<open>getNodeParameter('options', {})\<close>:
  a key that is absent reads as \<open>undefined\<close>.
\<close>

type_synonym options = "string \<rightharpoonup> jsval"

definition opt :: "options \<Rightarrow> string \<Rightarrow> jsval" where
  "opt options k = (case options k of None \<Rightarrow> JUndefined | Some v \<Rightarrow> v)"

record config =
  queue :: string
  interval :: int
  unit :: string
  options :: options

text \<open>
  What the runtime supplies to \<open>trigger\<close>: \<open>new URL(s).pathname\<close> (\<open>None\<close> when the
  constructor throws) and \<open>Number(s)\<close> on a string.
\<close>

record platform =
  url_pathname :: "string \<Rightarrow> string option"
  string_to_number :: "string \<Rightarrow> jsnum"

text \<open>\<open>Number(v)\<close>\<close>

fun js_Number :: "platform \<Rightarrow> jsval \<Rightarrow> jsnum" where
  "js_Number p JUndefined = NaN"
| "js_Number p JNull = Num 0"
| "js_Number p (JBool b) = Num (if b then 1 else 0)"
| "js_Number p (JNum x) = x"
| "js_Number p (JStr s) = string_to_number p s"

section \<open>\<open>trigger\<close>: building the receive request\<close>

definition base_params :: "string list" where
  "base_params =
     [''Version=2012-11-05'', ''Action=ReceiveMessage'', ''MessageAttributeName=All'',
      ''AttributeName=All'']"

definition push_visibilityTimeout :: "options \<Rightarrow> string list \<Rightarrow> js_error + string list" where
  "push_visibilityTimeout opts ps =
     (let visibilityTimeout = opt opts ''visibilityTimeout'' in
      if truthy visibilityTimeout then
        (case visibilityTimeout of
           JNum x \<Rightarrow>
             if num_lt x 0 \<or> num_gt x 43200
             then Inl (NodeOperationError
                         ''Visibility Timeout must be between 0 and 43200 (12 hours).'')
             else Inr (ps @ [''VisibilityTimeout='' @ to_string visibilityTimeout])
         | _ \<Rightarrow> Inr ps)
      else Inr ps)"

definition push_maxNumberOfMessages :: "options \<Rightarrow> string list \<Rightarrow> js_error + string list" where
  "push_maxNumberOfMessages opts ps =
     (let maxNumberOfMessages = opt opts ''maxNumberOfMessages'' in
      if truthy maxNumberOfMessages then
        (case maxNumberOfMessages of
           JNum x \<Rightarrow>
             if num_lt x 1 \<or> num_gt x 10
             then Inl (NodeOperationError ''Max Number Of Messages must be between 1 and 10.'')
             else Inr (ps @ [''MaxNumberOfMessages='' @ to_string maxNumberOfMessages])
         | _ \<Rightarrow> Inr ps)
      else Inr ps)"

definition push_waitTimeSeconds :: "options \<Rightarrow> string list \<Rightarrow> js_error + string list" where
  "push_waitTimeSeconds opts ps =
     (let waitTimeSeconds = opt opts ''waitTimeSeconds'' in
      if truthy waitTimeSeconds then
        (if is_number waitTimeSeconds \<and>
            (case waitTimeSeconds of JNum x \<Rightarrow> num_lt x 0 \<or> num_gt x 20 | _ \<Rightarrow> False)
         then Inl (NodeOperationError ''Wait Time Seconds must be between 0 and 20.'')
         else Inr (ps @ [''WaitTimeSeconds='' @ to_string waitTimeSeconds]))
      else Inr ps)"

definition receiveMessageParams :: "options \<Rightarrow> js_error + string list" where
  "receiveMessageParams opts =
     bind_err (push_visibilityTimeout opts base_params) (\<lambda>ps1.
     bind_err (push_maxNumberOfMessages opts ps1) (\<lambda>ps2.
     push_waitTimeSeconds opts ps2))"

section \<open>\<open>trigger\<close>: the delay\<close>

definition unit_seconds :: "int \<Rightarrow> string \<Rightarrow> int" where
  "unit_seconds iv u =
     (let v1 = (if u = ''minutes'' then iv * 60 else iv);
          v2 = (if u = ''hours'' then v1 * (60 * 60) else v1)
      in v2)"

definition intervalValue :: "platform \<Rightarrow> config \<Rightarrow> jsnum" where
  "intervalValue p c =
     num_times
       (Math_max (Num (unit_seconds (interval c) (unit c)))
                 (js_Number p (js_or (opt (options c) ''waitTimeSeconds'') (JNum (Num 0)))))
       1000"

section \<open>The poll scheduler\<close>

text \<open>
  The variables \<open>running\<close>, \<open>inFlight\<close> and \<open>intervalObj\<close> of \<open>trigger\<close>, together
  with what the host's event loop holds: the pending timers (handle and delay, one entry
  per \<open>setTimeout\<close> that has neither fired nor been cleared), the next fresh handle, the
  number of \<open>executeTrigger\<close> invocations that have been started and have not settled,
  and the number of invocations started so far.
\<close>

record sched =
  running :: bool
  inFlight :: bool
  intervalObj :: nat
  timers :: "(nat \<times> jsnum) list"
  next_handle :: nat
  executing :: nat
  started :: nat

text \<open>\<open>intervalObj = setTimeout(run, d)\<close>\<close>

definition arm :: "jsnum \<Rightarrow> sched \<Rightarrow> sched" where
  "arm d s =
     s\<lparr>intervalObj := next_handle s,
       timers := timers s @ [(next_handle s, d)],
       next_handle := Suc (next_handle s)\<rparr>"

text \<open>\<open>clearTimeout(h)\<close>: a handle that is not pending is ignored.\<close>

definition clearTimeout :: "nat \<Rightarrow> sched \<Rightarrow> sched" where
  "clearTimeout h s = s\<lparr>timers := filter (\<lambda>t. fst t \<noteq> h) (timers s)\<rparr>"

definition rearm :: "jsnum \<Rightarrow> sched \<Rightarrow> sched" where
  "rearm d s = (if running s then arm d s else s)"

text \<open>
  \<open>run\<close> is split at its \<open>await\<close>: \<open>run_begin\<close> is the part executed when the timer
  calls it, \<open>run_finish\<close> the \<open>finally\<close> block executed when \<open>executeTrigger\<close> has
  settled.
\<close>

definition run_begin :: "jsnum \<Rightarrow> sched \<Rightarrow> sched" where
  "run_begin d s =
     (if inFlight s then rearm d s
      else s\<lparr>inFlight := True, executing := Suc (executing s), started := Suc (started s)\<rparr>)"

definition run_finish :: "jsnum \<Rightarrow> sched \<Rightarrow> sched" where
  "run_finish d s = rearm d (s\<lparr>inFlight := False, executing := executing s - 1\<rparr>)"

definition closeFunction :: "sched \<Rightarrow> sched" where
  "closeFunction s = clearTimeout (intervalObj s) (s\<lparr>running := False\<rparr>)"

text \<open>
  \<open>let running = true; let intervalObj = setTimeout(run, 0); let inFlight = false;\<close>
\<close>

definition sched_start :: sched where
  "sched_start =
     \<lparr>running = True, inFlight = False, intervalObj = 0, timers = [(0, Num 0)],
      next_handle = 1, executing = 0, started = 0\<rparr>"

text \<open>
  What can happen to a started instance: a pending timer fires, a started cycle settles,
  the host calls \<open>closeFunction\<close>. An event that cannot happen in a state gives \<open>None\<close>.
\<close>

datatype event = Fire nat | Settle | Close

fun step :: "jsnum \<Rightarrow> event \<Rightarrow> sched \<Rightarrow> sched option" where
  "step d (Fire h) s =
     (if h \<in> fst ` set (timers s)
      then Some (run_begin d (s\<lparr>timers := filter (\<lambda>t. fst t \<noteq> h) (timers s)\<rparr>))
      else None)"
| "step d Settle s = (if 0 < executing s then Some (run_finish d s) else None)"
| "step d Close s = Some (closeFunction s)"

fun run_events :: "jsnum \<Rightarrow> event list \<Rightarrow> sched \<Rightarrow> sched option" where
  "run_events d [] s = Some s"
| "run_events d (e # es) s =
     (case step d e s of None \<Rightarrow> None | Some s' \<Rightarrow> run_events d es s')"

section \<open>\<open>trigger\<close>\<close>

text \<open>What \<open>executeTrigger\<close> and \<open>rearm\<close> capture from the enclosing call of \<open>trigger\<close>.\<close>

record closure =
  queuePath :: string
  params :: "string list"
  cl_options :: options
  delay :: jsnum

definition trigger :: "platform \<Rightarrow> config \<Rightarrow> js_error + (closure \<times> sched)" where
  "trigger p c =
     (case url_pathname p (queue c) of
        None \<Rightarrow> Inl (TypeError ''Invalid URL'')
      | Some path \<Rightarrow>
          bind_err (receiveMessageParams (options c)) (\<lambda>ps.
            if interval c \<le> 0
            then Inl (NodeOperationError ''The interval has to be set to at least 1 or higher!'')
            else
              let d = intervalValue p c in
              if num_gt d 2147483647
              then Inl (NodeApiError ''The interval value is too large.'')
              else Inr (\<lparr>queuePath = path, params = ps, cl_options = options c, delay = d\<rparr>,
                        sched_start)))"

section \<open>\<open>executeTrigger\<close>: one cycle\<close>

record message =
  ReceiptHandle :: string
  payload :: string

text \<open>
  The value of \<open>responseData?.ReceiveMessageResponse?.ReceiveMessageResult?.Message\<close>:
  missing (or falsy), one message object, or an array of them.
\<close>

datatype message_field = MsgAbsent | MsgSingle message | MsgArray "message list"

text \<open>
  The collaborators of one cycle: \<open>awsApiRequestSOAP\<close> as a function of the request path
  (the response of a delete request is not read) and the host's \<open>emit\<close>.
\<close>

record cycle_env =
  transport :: "string \<Rightarrow> js_error + message_field"
  sink :: "message list \<Rightarrow> js_error + unit"

datatype effect = Request string | Emit "message list" | LogError string

text \<open>A computation gives a value or a raised error, and the effects it caused, in order.\<close>

type_synonym 'a outcome = "(js_error + 'a) \<times> effect list"

definition returns :: "'a \<Rightarrow> 'a outcome" where
  "returns x = (Inr x, [])"

definition throws :: "js_error \<Rightarrow> 'a outcome" where
  "throws e = (Inl e, [])"

definition then_do :: "'a outcome \<Rightarrow> ('a \<Rightarrow> 'b outcome) \<Rightarrow> 'b outcome" where
  "then_do m f =
     (case m of
        (Inl e, tr) \<Rightarrow> (Inl e, tr)
      | (Inr x, tr) \<Rightarrow> (case f x of (r, tr') \<Rightarrow> (r, tr @ tr')))"

definition try_catch :: "'a outcome \<Rightarrow> (js_error \<Rightarrow> 'a outcome) \<Rightarrow> 'a outcome" where
  "try_catch m handler =
     (case m of
        (Inl e, tr) \<Rightarrow> (case handler e of (r, tr') \<Rightarrow> (r, tr @ tr'))
      | (Inr x, tr) \<Rightarrow> (Inr x, tr))"

definition awsApiRequestSOAP :: "cycle_env \<Rightarrow> string \<Rightarrow> message_field outcome" where
  "awsApiRequestSOAP env path = (transport env path, [Request path])"

definition emit :: "cycle_env \<Rightarrow> message list \<Rightarrow> unit outcome" where
  "emit env batch = (sink env batch, [Emit batch])"

definition logger_error :: "string \<Rightarrow> unit outcome" where
  "logger_error msg = (Inr (), [LogError msg])"

text \<open>The \<open>for\<close> loop over \<open>messagesArray\<close>, from index \<open>i\<close>.\<close>

fun batch_entries :: "nat \<Rightarrow> message list \<Rightarrow> string list" where
  "batch_entries i [] = []"
| "batch_entries i (m # ms) =
     (let deleteMessageBatchRequestId = i + 1;
          deleteMessageBatchRequestEntry =
            ''DeleteMessageBatchRequestEntry.'' @ string_of_nat deleteMessageBatchRequestId
      in [deleteMessageBatchRequestEntry @ ''.Id=msg'' @ string_of_nat deleteMessageBatchRequestId,
          deleteMessageBatchRequestEntry @ ''.ReceiptHandle='' @
            encodeURIComponent (ReceiptHandle m)])
     @ batch_entries (Suc i) ms"

text \<open>
  \<open>messagesArray[0].ReceiptHandle\<close> on an empty array reads a property of \<open>undefined\<close>,
  which raises a \<open>TypeError\<close>.
\<close>

definition deleteMessagesParams :: "message list \<Rightarrow> js_error + string list" where
  "deleteMessagesParams messagesArray =
     (if length messagesArray > 1
      then Inr ([''Version=2012-11-05'', ''Action=DeleteMessageBatch'']
                @ batch_entries 0 messagesArray)
      else
        (case messagesArray of
           [] \<Rightarrow> Inl (TypeError ''Cannot read properties of undefined (reading ReceiptHandle)'')
         | m # _ \<Rightarrow>
             Inr [''Version=2012-11-05'', ''Action=DeleteMessage'',
                  ''ReceiptHandle='' @ encodeURIComponent (ReceiptHandle m)]))"

definition request_path :: "closure \<Rightarrow> string list \<Rightarrow> string" where
  "request_path cl ps = queuePath cl @ ''?'' @ join ''&'' ps"

definition delete_step :: "cycle_env \<Rightarrow> closure \<Rightarrow> message list \<Rightarrow> unit outcome" where
  "delete_step env cl messagesArray =
     (if truthy (opt (cl_options cl) ''deleteMessages'') then
        (case deleteMessagesParams messagesArray of
           Inl e \<Rightarrow> throws e
         | Inr dps \<Rightarrow> then_do (awsApiRequestSOAP env (request_path cl dps)) (\<lambda>_. returns ()))
      else returns ())"

definition cycle_body :: "cycle_env \<Rightarrow> closure \<Rightarrow> unit outcome" where
  "cycle_body env cl =
     then_do (awsApiRequestSOAP env (request_path cl (params cl))) (\<lambda>messages.
       case messages of
         MsgAbsent \<Rightarrow> returns ()
       | _ \<Rightarrow>
           (let messagesArray = (case messages of MsgArray ms \<Rightarrow> ms | MsgSingle m \<Rightarrow> [m])
            in then_do (delete_step env cl messagesArray) (\<lambda>_. emit env messagesArray)))"

text \<open>\<open>`[SQS] receive/delete failed: ${error?.message || error}`\<close>\<close>

definition failure_log :: "js_error \<Rightarrow> string" where
  "failure_log error = ''[SQS] receive/delete failed: '' @ error_text error"

definition executeTrigger :: "cycle_env \<Rightarrow> closure \<Rightarrow> unit outcome" where
  "executeTrigger env cl =
     try_catch (cycle_body env cl) (\<lambda>error. logger_error (failure_log error))"

text \<open>Reading a trace.\<close>

fun requests :: "effect list \<Rightarrow> string list" where
  "requests [] = []"
| "requests (Request p # tr) = p # requests tr"
| "requests (_ # tr) = requests tr"

fun emissions :: "effect list \<Rightarrow> message list list" where
  "emissions [] = []"
| "emissions (Emit b # tr) = b # emissions tr"
| "emissions (_ # tr) = emissions tr"

fun logged :: "effect list \<Rightarrow> string list" where
  "logged [] = []"
| "logged (LogError m # tr) = m # logged tr"
| "logged (_ # tr) = logged tr"

section \<open>Invariants of the scheduler\<close>

text \<open>
  In every state a started instance can reach, at most one timer is pending, it is the one
  \<open>intervalObj\<close> refers to, and it is pending only while no cycle executes.
\<close>

definition sched_inv :: "sched \<Rightarrow> bool" where
  "sched_inv s =
     ((case timers s of
         [] \<Rightarrow> True
       | [t] \<Rightarrow> fst t = intervalObj s \<and> running s \<and> executing s = 0
       | _ \<Rightarrow> False)
      \<and> executing s \<le> 1 \<and> (inFlight s \<longleftrightarrow> executing s = 1))"

definition stopped :: "sched \<Rightarrow> bool" where
  "stopped s = (\<not> running s \<and> timers s = [])"

section \<open>Notions used to state the properties\<close>

text \<open>What a cycle does once it emits the batch \<open>ms\<close>: the effects of the \<open>emit\<close> call.\<close>

definition deliver :: "cycle_env \<Rightarrow> message list \<Rightarrow> effect list" where
  "deliver env ms =
     Emit ms # (case sink env ms of Inl e \<Rightarrow> [LogError (failure_log e)] | Inr u \<Rightarrow> [])"

text \<open>
  What a call of \<open>trigger\<close> shows to its surroundings: the error it raises, or the request
  path, the receive parameters, the delay and the scheduler state it starts with.
\<close>

definition observable ::
  "js_error + (closure \<times> sched) \<Rightarrow> js_error + (string \<times> string list \<times> jsnum \<times> sched)" where
  "observable r =
     (case r of Inl e \<Rightarrow> Inl e | Inr (cl, s) \<Rightarrow> Inr (queuePath cl, params cl, delay cl, s))"

text \<open>
  The specification's unit factors (milliseconds per unit) and its reading of the optional
  wait time (seconds, 0 when the option is not a number).
\<close>

definition spec_unit_factor_ms :: "string \<Rightarrow> int" where
  "spec_unit_factor_ms u =
     (if u = ''seconds'' then 1000
      else if u = ''minutes'' then 60000
      else if u = ''hours'' then 3600000
      else 0)"

definition spec_wait_seconds :: "options \<Rightarrow> int" where
  "spec_wait_seconds opts =
     (case opt opts ''waitTimeSeconds'' of JNum (Num w) \<Rightarrow> w | _ \<Rightarrow> 0)"

text \<open>A non-zero number outside the documented range \<open>lo..hi\<close> of an option.\<close>

fun outside :: "jsval \<Rightarrow> int \<Rightarrow> int \<Rightarrow> bool" where
  "outside (JNum (Num n)) lo hi = (n \<noteq> 0 \<and> (n < lo \<or> hi < n))"
| "outside v lo hi = False"

text \<open>
  The specification's delete request: one message gives a single delete with its receipt
  token; two or more give one batch whose \<open>n\<close>-th entry (counted from 1) has the id
  \<open>msgn\<close> and the receipt token of the \<open>n\<close>-th message, tokens percent-encoded.
\<close>

definition spec_batch_entry :: "nat \<Rightarrow> message \<Rightarrow> string list" where
  "spec_batch_entry n m =
     [''DeleteMessageBatchRequestEntry.'' @ string_of_nat n @ ''.Id=msg'' @ string_of_nat n,
      ''DeleteMessageBatchRequestEntry.'' @ string_of_nat n @ ''.ReceiptHandle='' @
        encodeURIComponent (ReceiptHandle m)]"

definition spec_delete_request :: "message list \<Rightarrow> string list" where
  "spec_delete_request ms =
     (if length ms = 1
      then [''Version=2012-11-05'', ''Action=DeleteMessage'',
            ''ReceiptHandle='' @ encodeURIComponent (ReceiptHandle (ms ! 0))]
      else [''Version=2012-11-05'', ''Action=DeleteMessageBatch'']
           @ concat (map (\<lambda>i. spec_batch_entry (i + 1) (ms ! i)) [0..<length ms]))"

section \<open>Example inputs\<close>

definition example_platform :: platform where
  "example_platform =
     \<lparr>url_pathname = (\<lambda>s. Some ''/123456789012/orders''),
      string_to_number = (\<lambda>s. if s = ''15'' then Num 15 else NaN)\<rparr>"

definition example_queue :: string where
  "example_queue = ''https://sqs.eu-west-1.amazonaws.com/123456789012/orders''"

definition config_of :: "int \<Rightarrow> string \<Rightarrow> options \<Rightarrow> config" where
  "config_of iv u opts = \<lparr>queue = example_queue, interval = iv, unit = u, options = opts\<rparr>"

definition msg_a :: message where
  "msg_a = \<lparr>ReceiptHandle = ''AQEB+x/y=z'', payload = ''first''\<rparr>"

definition msg_b :: message where
  "msg_b = \<lparr>ReceiptHandle = ''h2'', payload = ''second''\<rparr>"

definition msg_c :: message where
  "msg_c = \<lparr>ReceiptHandle = ''h3'', payload = ''third''\<rparr>"

text \<open>A closure with \<open>deleteMessages\<close> set.\<close>

definition example_closure :: closure where
  "example_closure =
     \<lparr>queuePath = ''/q'', params = [''Action=ReceiveMessage''],
      cl_options = [''deleteMessages'' \<mapsto> JBool True], delay = Num 1000\<rparr>"

text \<open>One message is received and the delete request is refused.\<close>

definition env_delete_fails :: cycle_env where
  "env_delete_fails =
     \<lparr>transport = (\<lambda>path. if path = ''/q?Action=ReceiveMessage'' then Inr (MsgSingle msg_a)
                           else Inl (Thrown ''AccessDenied'')),
      sink = (\<lambda>batch. Inr ())\<rparr>"

text \<open>One message is received, the delete succeeds and the sink raises.\<close>

definition env_sink_fails :: cycle_env where
  "env_sink_fails =
     \<lparr>transport = (\<lambda>path. if path = ''/q?Action=ReceiveMessage'' then Inr (MsgSingle msg_a)
                           else Inr MsgAbsent),
      sink = (\<lambda>batch. Inl (Thrown ''workflow failed''))\<rparr>"

text \<open>Three messages are received and every call succeeds.\<close>

definition env_three :: cycle_env where
  "env_three =
     \<lparr>transport = (\<lambda>path. if path = ''/q?Action=ReceiveMessage''
                           then Inr (MsgArray [msg_a, msg_b, msg_c]) else Inr MsgAbsent),
      sink = (\<lambda>batch. Inr ())\<rparr>"

text \<open>The scheduler while the second cycle executes.\<close>

definition busy_state :: sched where
  "busy_state =
     \<lparr>running = True, inFlight = True, intervalObj = 1, timers = [],
      next_handle = 2, executing = 1, started = 2\<rparr>"

section \<open>Lemmas on options and requests\<close>

lemma opt_upd [simp]: "opt (m(k \<mapsto> v)) k' = (if k' = k then v else opt m k')"
  by (simp add: opt_def)

lemma opt_del [simp]: "opt (m(k := None)) k' = (if k' = k then JUndefined else opt m k')"
  by (simp add: opt_def)

lemma opt_empty [simp]: "opt Map.empty k = JUndefined"
  by (simp add: opt_def)

lemmas push_defs = push_visibilityTimeout_def push_maxNumberOfMessages_def
  push_waitTimeSeconds_def

lemma request_path_options [simp]:
  "request_path (cl\<lparr>cl_options := x\<rparr>) ps = request_path cl ps"
  by (simp add: request_path_def)

lemma requests_append [simp]: "requests (a @ b) = requests a @ requests b"
  by (induction a rule: requests.induct) simp_all

lemma emissions_append [simp]: "emissions (a @ b) = emissions a @ emissions b"
  by (induction a rule: emissions.induct) simp_all

lemma logged_append [simp]: "logged (a @ b) = logged a @ logged b"
  by (induction a rule: logged.induct) simp_all

section \<open>The cases of one cycle\<close>

lemmas cycle_defs = executeTrigger_def cycle_body_def delete_step_def try_catch_def
  then_do_def awsApiRequestSOAP_def emit_def logger_error_def returns_def throws_def

lemma cycle_receive_fails:
  "transport env (request_path cl (params cl)) = Inl e \<Longrightarrow>
   executeTrigger env cl
   = (Inr (), [Request (request_path cl (params cl)), LogError (failure_log e)])"
  by (simp add: cycle_defs)

lemma cycle_no_messages:
  "transport env (request_path cl (params cl)) = Inr MsgAbsent \<Longrightarrow>
   executeTrigger env cl = (Inr (), [Request (request_path cl (params cl))])"
  by (simp add: cycle_defs)

lemma cycle_keep:
  assumes "transport env (request_path cl (params cl)) = Inr field"
      and "field = MsgArray ms \<or> field = MsgSingle m \<and> ms = [m]"
      and "\<not> truthy (opt (cl_options cl) ''deleteMessages'')"
  shows "executeTrigger env cl
         = (Inr (), Request (request_path cl (params cl)) # deliver env ms)"
  using assms by (auto simp: cycle_defs deliver_def split: sum.splits)

lemma cycle_delete_params_fail:
  assumes "transport env (request_path cl (params cl)) = Inr field"
      and "field = MsgArray ms \<or> field = MsgSingle m \<and> ms = [m]"
      and "truthy (opt (cl_options cl) ''deleteMessages'')"
      and "deleteMessagesParams ms = Inl e"
  shows "executeTrigger env cl
         = (Inr (), [Request (request_path cl (params cl)), LogError (failure_log e)])"
  using assms by (auto simp: cycle_defs split: sum.splits)

lemma cycle_delete_fails:
  assumes "transport env (request_path cl (params cl)) = Inr field"
      and "field = MsgArray ms \<or> field = MsgSingle m \<and> ms = [m]"
      and "truthy (opt (cl_options cl) ''deleteMessages'')"
      and "deleteMessagesParams ms = Inr dps"
      and "transport env (request_path cl dps) = Inl e"
  shows "executeTrigger env cl
         = (Inr (), [Request (request_path cl (params cl)), Request (request_path cl dps),
                     LogError (failure_log e)])"
  using assms by (auto simp: cycle_defs split: sum.splits)

lemma cycle_delete_ok:
  assumes "transport env (request_path cl (params cl)) = Inr field"
      and "field = MsgArray ms \<or> field = MsgSingle m \<and> ms = [m]"
      and "truthy (opt (cl_options cl) ''deleteMessages'')"
      and "deleteMessagesParams ms = Inr dps"
      and "transport env (request_path cl dps) = Inr r"
  shows "executeTrigger env cl
         = (Inr (), Request (request_path cl (params cl)) # Request (request_path cl dps)
                    # deliver env ms)"
  using assms by (auto simp: cycle_defs deliver_def split: sum.splits)

section \<open>Lemmas on the scheduler\<close>

lemma sched_inv_start: "sched_inv sched_start"
  by (simp add: sched_inv_def sched_start_def)

lemma sched_inv_step:
  assumes "sched_inv s" and "step d e s = Some s'"
  shows "sched_inv s'"
proof (cases e)
  case (Fire h)
  with assms show ?thesis
    by (auto simp: sched_inv_def run_begin_def rearm_def arm_def
        split: if_splits list.splits)
next
  case Settle
  with assms show ?thesis
    by (auto simp: sched_inv_def run_finish_def rearm_def arm_def
        split: if_splits list.splits)
next
  case Close
  with assms show ?thesis
    by (auto simp: sched_inv_def closeFunction_def clearTimeout_def
        split: if_splits list.splits)
qed

lemma sched_inv_run_events:
  "sched_inv s \<Longrightarrow> run_events d es s = Some s' \<Longrightarrow> sched_inv s'"
proof (induction es arbitrary: s)
  case Nil
  then show ?case by simp
next
  case (Cons e es)
  then show ?case
    by (auto split: option.splits dest: sched_inv_step)
qed

lemma stopped_step:
  assumes "stopped s" and "step d e s = Some s'"
  shows "stopped s' \<and> started s' = started s"
  using assms
  by (cases e) (auto simp: stopped_def run_finish_def rearm_def closeFunction_def
      clearTimeout_def split: if_splits)

lemma stopped_run_events:
  "stopped s \<Longrightarrow> run_events d es s = Some s' \<Longrightarrow> stopped s' \<and> started s' = started s"
proof (induction es arbitrary: s)
  case Nil
  then show ?case by simp
next
  case (Cons e es)
  from Cons.prems obtain s1
    where s1: "step d e s = Some s1" and r: "run_events d es s1 = Some s'"
    by (auto split: option.splits)
  from stopped_step [OF Cons.prems(1) s1] have "stopped s1" and "started s1 = started s"
    by simp_all
  with Cons.IH [OF _ r] show ?case by simp
qed

lemma closeFunction_stops: "sched_inv s \<Longrightarrow> stopped (closeFunction s)"
  by (auto simp: sched_inv_def stopped_def closeFunction_def clearTimeout_def
      split: list.splits)

lemma closeFunction_timers:
  "sched_inv s \<Longrightarrow> closeFunction s = s\<lparr>running := False, timers := []\<rparr>"
  by (auto simp: sched_inv_def closeFunction_def clearTimeout_def split: list.splits)

lemma busy_reached:
  "run_events (Num 60000) [Fire 0, Settle, Fire 1] sched_start = Some busy_state"
  by (simp add: sched_start_def busy_state_def run_begin_def run_finish_def rearm_def arm_def)

section \<open>The scheduler never overlaps cycles\<close>

text \<open>
  Claim C4. In every state a started instance reaches, at most one invocation of
  \<open>executeTrigger\<close> is executing, \<open>inFlight\<close> is set exactly while one executes, and an
  invocation starts only when none executes. No timer is pending while a cycle executes;
  if \<open>run\<close> is nevertheless entered with \<open>inFlight\<close> set (in any state whatever), it
  starts nothing and only rearms: one timer with the configured delay when \<open>running\<close>.
\<close>

theorem at_most_one_cycle_in_flight:
  assumes "run_events d es sched_start = Some s"
  shows "executing s \<le> 1
       \<and> (inFlight s \<longleftrightarrow> executing s = 1)
       \<and> (inFlight s \<longrightarrow> timers s = [])
       \<and> (\<forall>h s'. step d (Fire h) s = Some s' \<and> started s' = Suc (started s)
             \<longrightarrow> executing s = 0 \<and> \<not> inFlight s \<and> executing s' = 1)
       \<and> (\<forall>t. inFlight t \<longrightarrow>
             run_begin d t = rearm d t
             \<and> executing (run_begin d t) = executing t
             \<and> started (run_begin d t) = started t
             \<and> (running t \<longrightarrow> timers (run_begin d t) = timers t @ [(next_handle t, d)]))"
proof -
  from sched_inv_run_events [OF sched_inv_start assms] have inv: "sched_inv s" .
  have a: "executing s \<le> 1" and b: "inFlight s \<longleftrightarrow> executing s = 1"
    using inv by (simp_all add: sched_inv_def)
  have c: "inFlight s \<longrightarrow> timers s = []"
    using inv by (auto simp: sched_inv_def split: list.splits)
  have d: "\<forall>h s'. step d (Fire h) s = Some s' \<and> started s' = Suc (started s)
             \<longrightarrow> executing s = 0 \<and> \<not> inFlight s \<and> executing s' = 1"
    using inv
    by (auto simp: sched_inv_def run_begin_def rearm_def arm_def split: list.splits if_splits)
  have e: "\<forall>t. inFlight t \<longrightarrow>
             run_begin d t = rearm d t
             \<and> executing (run_begin d t) = executing t
             \<and> started (run_begin d t) = started t
             \<and> (running t \<longrightarrow> timers (run_begin d t) = timers t @ [(next_handle t, d)])"
    by (simp add: run_begin_def rearm_def arm_def)
  from a b c d e show ?thesis by blast
qed

text \<open>Claim C4, at the state reached when the second cycle has started.\<close>

theorem at_most_one_cycle_in_flight_witness:
  "run_events (Num 60000) [Fire 0, Settle, Fire 1] sched_start = Some busy_state
   \<and> inFlight busy_state
   \<and> executing busy_state \<le> 1
   \<and> timers busy_state = []
   \<and> timers (run_begin (Num 60000) busy_state) = [(2, Num 60000)]
   \<and> executing (run_begin (Num 60000) busy_state) = 1"
proof -
  note w = at_most_one_cycle_in_flight [OF busy_reached]
  have fl: "inFlight busy_state" by (simp add: busy_state_def)
  from w have a: "executing busy_state \<le> 1" by blast
  from w fl have b: "timers busy_state = []" by blast
  from w fl have c: "executing (run_begin (Num 60000) busy_state) = executing busy_state
      \<and> (running busy_state \<longrightarrow>
           timers (run_begin (Num 60000) busy_state)
           = timers busy_state @ [(next_handle busy_state, Num 60000)])"
    by blast
  have d: "running busy_state" "executing busy_state = 1" "next_handle busy_state = 2"
    by (simp_all add: busy_state_def)
  from c have e: "timers (run_begin (Num 60000) busy_state) = [(2, Num 60000)]"
    by (simp add: d b)
  from c have f: "executing (run_begin (Num 60000) busy_state) = 1"
    by (simp add: d)
  from busy_reached fl a b e f show ?thesis by blast
qed

section \<open>Stopping\<close>

text \<open>
  Claim C8. \<open>closeFunction\<close> called twice gives the state of one call, in every state, and
  has no error to raise. When it is called while a cycle executes, the cycle can still
  settle, which clears \<open>inFlight\<close> and arms nothing (\<open>rearm\<close> leaves a state that is not
  running as it is); whatever happens afterwards, \<open>running\<close> stays false, no timer is
  pending and no further cycle is started.
\<close>

theorem stop_twice_and_during_cycle:
  "closeFunction (closeFunction t) = closeFunction t
   \<and> (\<not> running t \<longrightarrow> rearm d t = t)
   \<and> (run_events d es sched_start = Some s \<and> inFlight s \<longrightarrow>
        step d Settle (closeFunction s)
          = Some (s\<lparr>running := False, inFlight := False, timers := [], executing := 0\<rparr>)
        \<and> (\<forall>es' s'. run_events d es' (closeFunction s) = Some s'
              \<longrightarrow> \<not> running s' \<and> timers s' = [] \<and> started s' = started s))"
proof -
  have idem: "closeFunction (closeFunction t) = closeFunction t"
    by (simp add: closeFunction_def clearTimeout_def)
  have noop: "\<not> running t \<longrightarrow> rearm d t = t"
    by (simp add: rearm_def)
  have during: "step d Settle (closeFunction s)
          = Some (s\<lparr>running := False, inFlight := False, timers := [], executing := 0\<rparr>)
        \<and> (\<forall>es' s'. run_events d es' (closeFunction s) = Some s'
              \<longrightarrow> \<not> running s' \<and> timers s' = [] \<and> started s' = started s)"
    if reach: "run_events d es sched_start = Some s" and fl: "inFlight s"
  proof -
    from sched_inv_run_events [OF sched_inv_start reach] have inv: "sched_inv s" .
    from inv fl have ex: "executing s = 1"
      by (simp add: sched_inv_def)
    have settle: "step d Settle (closeFunction s)
          = Some (s\<lparr>running := False, inFlight := False, timers := [], executing := 0\<rparr>)"
      using ex by (simp add: closeFunction_timers [OF inv] run_finish_def rearm_def)
    have st: "stopped (closeFunction s)"
      by (rule closeFunction_stops [OF inv])
    have later: "\<not> running s' \<and> timers s' = [] \<and> started s' = started s"
      if "run_events d es' (closeFunction s) = Some s'" for es' s'
      using stopped_run_events [OF st that]
      by (simp add: stopped_def closeFunction_timers [OF inv])
    from settle later show ?thesis by blast
  qed
  from idem noop during show ?thesis by blast
qed

text \<open>Claim C8, stopping while the second cycle executes.\<close>

theorem stop_twice_and_during_cycle_witness:
  "run_events (Num 60000) [Fire 0, Settle, Fire 1] sched_start = Some busy_state
   \<and> inFlight busy_state
   \<and> closeFunction (closeFunction busy_state) = closeFunction busy_state
   \<and> step (Num 60000) Settle (closeFunction busy_state)
       = Some (busy_state\<lparr>running := False, inFlight := False, timers := [], executing := 0\<rparr>)
   \<and> run_events (Num 60000) [Settle, Close] (closeFunction busy_state)
       = Some (busy_state\<lparr>running := False, inFlight := False, timers := [], executing := 0\<rparr>)
   \<and> started (busy_state\<lparr>running := False, inFlight := False, timers := [], executing := 0\<rparr>)
       = started busy_state"
proof -
  let ?final = "busy_state\<lparr>running := False, inFlight := False, timers := [], executing := 0\<rparr>"
  have fl: "inFlight busy_state" by (simp add: busy_state_def)
  note w = stop_twice_and_during_cycle [where d = "Num 60000" and t = busy_state
      and es = "[Fire 0, Settle, Fire 1]" and s = busy_state]
  from w have a: "closeFunction (closeFunction busy_state) = closeFunction busy_state"
    by blast
  from w busy_reached fl
  have b: "step (Num 60000) Settle (closeFunction busy_state) = Some ?final"
    by blast
  from w busy_reached fl
  have c: "\<forall>es' s'. run_events (Num 60000) es' (closeFunction busy_state) = Some s'
              \<longrightarrow> \<not> running s' \<and> timers s' = [] \<and> started s' = started busy_state"
    by blast
  have n: "run_events (Num 60000) [Settle, Close] (closeFunction busy_state) = Some ?final"
    by (simp add: busy_state_def closeFunction_def clearTimeout_def run_finish_def rearm_def)
  from c n have e: "started ?final = started busy_state"
    by blast
  from a b n e busy_reached fl show ?thesis by blast
qed

section \<open>Options are read by truthiness\<close>

lemma falsy_push:
  assumes "\<not> truthy v"
  shows "push_visibilityTimeout (opts(k \<mapsto> v)) ps = push_visibilityTimeout (opts(k := None)) ps"
    and "push_maxNumberOfMessages (opts(k \<mapsto> v)) ps = push_maxNumberOfMessages (opts(k := None)) ps"
    and "push_waitTimeSeconds (opts(k \<mapsto> v)) ps = push_waitTimeSeconds (opts(k := None)) ps"
  using assms by (simp_all add: push_defs Let_def)

lemma falsy_params:
  "\<not> truthy v \<Longrightarrow> receiveMessageParams (opts(k \<mapsto> v)) = receiveMessageParams (opts(k := None))"
  by (simp add: receiveMessageParams_def falsy_push)

lemma falsy_interval:
  "\<not> truthy v \<Longrightarrow>
   intervalValue p (c\<lparr>options := opts(k \<mapsto> v)\<rparr>) = intervalValue p (c\<lparr>options := opts(k := None)\<rparr>)"
  by (simp add: intervalValue_def js_or_def)

lemma falsy_delete_step:
  "\<not> truthy v \<Longrightarrow>
   delete_step env (cl\<lparr>cl_options := opts(k \<mapsto> v)\<rparr>) ms
   = delete_step env (cl\<lparr>cl_options := opts(k := None)\<rparr>) ms"
  by (simp add: delete_step_def split: sum.splits)

lemma falsy_cycle:
  "\<not> truthy v \<Longrightarrow>
   executeTrigger env (cl\<lparr>cl_options := opts(k \<mapsto> v)\<rparr>)
   = executeTrigger env (cl\<lparr>cl_options := opts(k := None)\<rparr>)"
  by (simp add: executeTrigger_def cycle_body_def falsy_delete_step
      cong: message_field.case_cong)

lemma falsy_trigger:
  "\<not> truthy v \<Longrightarrow>
   observable (trigger p (c\<lparr>options := opts(k \<mapsto> v)\<rparr>))
   = observable (trigger p (c\<lparr>options := opts(k := None)\<rparr>))"
  by (simp add: trigger_def observable_def falsy_params falsy_interval bind_err_def Let_def
      split: option.splits sum.splits)

lemma no_delete_when_falsy:
  assumes "\<not> truthy (opt (cl_options cl) ''deleteMessages'')"
  shows "requests (snd (executeTrigger env cl)) = [request_path cl (params cl)]"
proof (cases "transport env (request_path cl (params cl))")
  case (Inl e)
  then show ?thesis by (simp add: cycle_receive_fails)
next
  case (Inr field)
  show ?thesis
  proof (cases field)
    case MsgAbsent
    with Inr show ?thesis by (simp add: cycle_no_messages)
  next
    case (MsgSingle m)
    with Inr assms have "executeTrigger env cl
        = (Inr (), Request (request_path cl (params cl)) # deliver env [m])"
      by (intro cycle_keep [where field = field and m = m]) simp_all
    then show ?thesis by (simp add: deliver_def split: sum.splits)
  next
    case (MsgArray ms)
    with Inr assms have "executeTrigger env cl
        = (Inr (), Request (request_path cl (params cl)) # deliver env ms)"
      by (intro cycle_keep [where field = field]) simp_all
    then show ?thesis by (simp add: deliver_def split: sum.splits)
  qed
qed

text \<open>
  Claim C9. An option whose value is falsy (0, \<open>false\<close>, \<open>NaN\<close>, \<open>null\<close>, the empty
  string) is treated as if its key were absent: the step for \<open>visibilityTimeout\<close>,
  \<open>maxNumberOfMessages\<close> or \<open>waitTimeSeconds\<close> adds no parameter and raises no error,
  \<open>trigger\<close> gives the same error or the same request, delay and scheduler state as
  without the key, and every cycle behaves the same. Empty options give the four base
  parameters only. When \<open>deleteMessages\<close> is falsy the only request of a cycle is the
  receive request.
\<close>

theorem falsy_option_treated_as_unset:
  assumes "\<not> truthy v"
  shows "push_visibilityTimeout (opts(''visibilityTimeout'' \<mapsto> v)) ps = Inr ps
       \<and> push_maxNumberOfMessages (opts(''maxNumberOfMessages'' \<mapsto> v)) ps = Inr ps
       \<and> push_waitTimeSeconds (opts(''waitTimeSeconds'' \<mapsto> v)) ps = Inr ps
       \<and> observable (trigger p (c\<lparr>options := opts(k \<mapsto> v)\<rparr>))
           = observable (trigger p (c\<lparr>options := opts(k := None)\<rparr>))
       \<and> executeTrigger env (cl\<lparr>cl_options := opts(k \<mapsto> v)\<rparr>)
           = executeTrigger env (cl\<lparr>cl_options := opts(k := None)\<rparr>)
       \<and> receiveMessageParams Map.empty = Inr base_params
       \<and> (\<not> truthy (opt (cl_options cl) ''deleteMessages'') \<longrightarrow>
            requests (snd (executeTrigger env cl)) = [request_path cl (params cl)])"
proof -
  have a: "push_visibilityTimeout (opts(''visibilityTimeout'' \<mapsto> v)) ps = Inr ps"
    using assms by (simp add: push_visibilityTimeout_def)
  have b: "push_maxNumberOfMessages (opts(''maxNumberOfMessages'' \<mapsto> v)) ps = Inr ps"
    using assms by (simp add: push_maxNumberOfMessages_def)
  have c: "push_waitTimeSeconds (opts(''waitTimeSeconds'' \<mapsto> v)) ps = Inr ps"
    using assms by (simp add: push_waitTimeSeconds_def)
  have d: "receiveMessageParams Map.empty = Inr base_params"
    by (simp add: receiveMessageParams_def push_defs bind_err_def)
  from a b c d falsy_trigger [OF assms] falsy_cycle [OF assms] no_delete_when_falsy
  show ?thesis by blast
qed

text \<open>Claim C9, at the value 0: out of range for \<open>maxNumberOfMessages\<close>, and ignored.\<close>

theorem falsy_option_treated_as_unset_witness:
  "\<not> truthy (JNum (Num 0))
   \<and> push_maxNumberOfMessages [''maxNumberOfMessages'' \<mapsto> JNum (Num 0)] base_params
       = Inr base_params
   \<and> observable (trigger example_platform
         (config_of 1 ''seconds'' [''waitTimeSeconds'' \<mapsto> JNum (Num 0)]))
       = observable (trigger example_platform (config_of 1 ''seconds'' Map.empty))"
proof -
  have h: "\<not> truthy (JNum (Num 0))" by simp
  from falsy_option_treated_as_unset [OF h, where opts = Map.empty and ps = base_params
      and p = example_platform and c = "config_of 1 ''seconds'' Map.empty"
      and k = "''waitTimeSeconds''"]
  show ?thesis using h by (simp add: config_of_def)
qed

lemma truthy_nonnumber_cases:
  assumes "truthy v" and "\<not> is_number v"
  shows "v = JBool True \<or> (\<exists>s. s \<noteq> [] \<and> v = JStr s)"
  using assms by (cases v) simp_all

text \<open>
  Claim C10. A truthy value that is not a number is \<open>true\<close> or a non-empty string. For
  such a value, the steps for \<open>visibilityTimeout\<close> and \<open>maxNumberOfMessages\<close> raise no
  error and add no parameter, so that the receive parameters are those without the key;
  the step for \<open>waitTimeSeconds\<close> raises no error and appends the value as it is,
  unchecked: \<open>WaitTimeSeconds=true\<close> for \<open>true\<close>, and \<open>WaitTimeSeconds=\<close> followed by
  the string itself for a string.
\<close>

theorem nonnumber_option_asymmetry:
  assumes "truthy v" and "\<not> is_number v"
  shows "(v = JBool True \<or> (\<exists>s. s \<noteq> [] \<and> v = JStr s))
       \<and> push_visibilityTimeout (opts(''visibilityTimeout'' \<mapsto> v)) ps = Inr ps
       \<and> push_maxNumberOfMessages (opts(''maxNumberOfMessages'' \<mapsto> v)) ps = Inr ps
       \<and> (v = JBool True \<longrightarrow>
            push_waitTimeSeconds (opts(''waitTimeSeconds'' \<mapsto> v)) ps
            = Inr (ps @ [''WaitTimeSeconds=true'']))
       \<and> (\<forall>s. v = JStr s \<longrightarrow>
            push_waitTimeSeconds (opts(''waitTimeSeconds'' \<mapsto> v)) ps
            = Inr (ps @ [''WaitTimeSeconds='' @ s]))
       \<and> receiveMessageParams (opts(''visibilityTimeout'' \<mapsto> v))
           = receiveMessageParams (opts(''visibilityTimeout'' := None))
       \<and> receiveMessageParams (opts(''maxNumberOfMessages'' \<mapsto> v))
           = receiveMessageParams (opts(''maxNumberOfMessages'' := None))
       \<and> (v = JBool True \<longrightarrow>
            receiveMessageParams (opts(''waitTimeSeconds'' \<mapsto> v))
            = map_sum id (\<lambda>ps. ps @ [''WaitTimeSeconds=true''])
                (receiveMessageParams (opts(''waitTimeSeconds'' := None))))
       \<and> (\<forall>s. v = JStr s \<longrightarrow>
            receiveMessageParams (opts(''waitTimeSeconds'' \<mapsto> v))
            = map_sum id (\<lambda>ps. ps @ [''WaitTimeSeconds='' @ s])
                (receiveMessageParams (opts(''waitTimeSeconds'' := None))))"
proof -
  note kinds = truthy_nonnumber_cases [OF assms]
  have a: "push_visibilityTimeout (opts(''visibilityTimeout'' \<mapsto> v)) ps = Inr ps" for ps
    using assms by (cases v) (simp_all add: push_visibilityTimeout_def)
  have b: "push_maxNumberOfMessages (opts(''maxNumberOfMessages'' \<mapsto> v)) ps = Inr ps" for ps
    using assms by (cases v) (simp_all add: push_maxNumberOfMessages_def)
  have c1: "push_waitTimeSeconds (opts(''waitTimeSeconds'' \<mapsto> v)) ps
            = Inr (ps @ [''WaitTimeSeconds=true''])" if "v = JBool True" for ps
    using that by (simp add: push_waitTimeSeconds_def)
  have c2: "push_waitTimeSeconds (opts(''waitTimeSeconds'' \<mapsto> v)) ps
            = Inr (ps @ [''WaitTimeSeconds='' @ s])" if "v = JStr s" for s ps
    using that assms by (simp add: push_waitTimeSeconds_def)
  have d: "receiveMessageParams (opts(''visibilityTimeout'' \<mapsto> v))
           = receiveMessageParams (opts(''visibilityTimeout'' := None))"
    by (simp add: receiveMessageParams_def a)
       (simp add: push_defs)
  have e: "receiveMessageParams (opts(''maxNumberOfMessages'' \<mapsto> v))
           = receiveMessageParams (opts(''maxNumberOfMessages'' := None))"
    using assms by (cases v) (simp_all add: receiveMessageParams_def push_defs)
  have f1: "receiveMessageParams (opts(''waitTimeSeconds'' \<mapsto> v))
            = map_sum id (\<lambda>ps. ps @ [''WaitTimeSeconds=true''])
                (receiveMessageParams (opts(''waitTimeSeconds'' := None)))" if "v = JBool True"
    using that
    by (simp add: receiveMessageParams_def push_defs bind_err_def Let_def split: sum.splits)
  have f2: "receiveMessageParams (opts(''waitTimeSeconds'' \<mapsto> v))
            = map_sum id (\<lambda>ps. ps @ [''WaitTimeSeconds='' @ s])
                (receiveMessageParams (opts(''waitTimeSeconds'' := None)))" if "v = JStr s" for s
    using that assms
    by (simp add: receiveMessageParams_def push_defs bind_err_def Let_def split: sum.splits)
  from kinds a b c1 c2 d e f1 f2 show ?thesis by blast
qed

text \<open>Claim C10, at the string \<open>15\<close> and at \<open>true\<close>.\<close>

theorem nonnumber_option_asymmetry_witness:
  "truthy (JStr ''15'') \<and> \<not> is_number (JStr ''15'')
   \<and> receiveMessageParams [''visibilityTimeout'' \<mapsto> JStr ''15''] = Inr base_params
   \<and> receiveMessageParams [''maxNumberOfMessages'' \<mapsto> JStr ''15''] = Inr base_params
   \<and> receiveMessageParams [''waitTimeSeconds'' \<mapsto> JStr ''15'']
       = Inr (base_params @ [''WaitTimeSeconds=15''])
   \<and> truthy (JBool True) \<and> \<not> is_number (JBool True)
   \<and> receiveMessageParams [''visibilityTimeout'' \<mapsto> JBool True] = Inr base_params
   \<and> receiveMessageParams [''waitTimeSeconds'' \<mapsto> JBool True]
       = Inr (base_params @ [''WaitTimeSeconds=true''])"
proof -
  have s1: "truthy (JStr ''15'')" and s2: "\<not> is_number (JStr ''15'')" by simp_all
  have t1: "truthy (JBool True)" and t2: "\<not> is_number (JBool True)" by simp_all
  have d: "receiveMessageParams Map.empty = Inr base_params"
    by (simp add: receiveMessageParams_def push_defs bind_err_def)
  note ws = nonnumber_option_asymmetry [OF s1 s2, of Map.empty]
  note wt = nonnumber_option_asymmetry [OF t1 t2, of Map.empty]
  from ws d have a: "receiveMessageParams [''visibilityTimeout'' \<mapsto> JStr ''15''] = Inr base_params"
    by simp
  from ws d have b: "receiveMessageParams [''maxNumberOfMessages'' \<mapsto> JStr ''15''] = Inr base_params"
    by simp
  from ws d have c: "receiveMessageParams [''waitTimeSeconds'' \<mapsto> JStr ''15'']
       = Inr (base_params @ [''WaitTimeSeconds=15''])"
    by simp
  from wt d have e: "receiveMessageParams [''visibilityTimeout'' \<mapsto> JBool True] = Inr base_params"
    by simp
  from wt d have f: "receiveMessageParams [''waitTimeSeconds'' \<mapsto> JBool True]
       = Inr (base_params @ [''WaitTimeSeconds=true''])"
    by simp
  from s1 s2 t1 t2 a b c e f show ?thesis by blast
qed

section \<open>The delay and the checks of \<open>trigger\<close>\<close>

lemma string_of_nat_20: "string_of_nat 20 = ''20''"
  by code_simp

lemma max_times_1000: "max a b * 1000 = max (a * 1000) (b * (1000::int))"
  by (simp add: max_def)

lemma trigger_delay:
  "trigger p c = Inr (cl, s) \<Longrightarrow> delay cl = intervalValue p c \<and> s = sched_start"
  by (auto simp: trigger_def bind_err_def Let_def split: option.splits sum.splits if_splits)

text \<open>
  Claim C5. When \<open>trigger\<close> succeeds, the unit is one of seconds, minutes and hours, and
  \<open>waitTimeSeconds\<close> is absent or a number, the delay that \<open>rearm\<close> arms timers with is
  the maximum of the interval times the unit factor (in milliseconds) and the wait time
  times 1000.
\<close>

theorem normalized_delay_is_max:
  assumes "trigger p c = Inr (cl, s)"
      and "unit c \<in> {''seconds'', ''minutes'', ''hours''}"
      and "opt (options c) ''waitTimeSeconds'' = JUndefined
           \<or> is_number (opt (options c) ''waitTimeSeconds'')"
  shows "delay cl = Num (max (interval c * spec_unit_factor_ms (unit c))
                             (spec_wait_seconds (options c) * 1000))
       \<and> (\<forall>t. running t \<longrightarrow>
             timers (rearm (delay cl) t) = timers t @ [(next_handle t, delay cl)])"
proof -
  have secs: "unit_seconds (interval c) (unit c) * 1000
              = interval c * spec_unit_factor_ms (unit c)"
    using assms(2) by (auto simp: unit_seconds_def spec_unit_factor_ms_def)
  have wait: "js_Number p (js_or (opt (options c) ''waitTimeSeconds'') (JNum (Num 0)))
              = Num (spec_wait_seconds (options c))"
  proof (cases "opt (options c) ''waitTimeSeconds''")
    case (JNum x)
    then show ?thesis
      by (cases x) (simp_all add: js_or_def spec_wait_seconds_def)
  qed (use assms(3) in \<open>simp_all add: js_or_def spec_wait_seconds_def\<close>)
  have "intervalValue p c
        = Num (max (interval c * spec_unit_factor_ms (unit c))
                   (spec_wait_seconds (options c) * 1000))"
    by (simp add: intervalValue_def wait max_times_1000 secs)
  with trigger_delay [OF assms(1)] show ?thesis
    by (simp add: rearm_def arm_def)
qed

text \<open>Claim C5, at an interval of 1 second with a wait time of 20 seconds: 20000 ms.\<close>

theorem normalized_delay_is_max_witness:
  "trigger example_platform (config_of 1 ''seconds'' [''waitTimeSeconds'' \<mapsto> JNum (Num 20)])
     = Inr (\<lparr>queuePath = ''/123456789012/orders'',
              params = base_params @ [''WaitTimeSeconds=20''],
              cl_options = [''waitTimeSeconds'' \<mapsto> JNum (Num 20)],
              delay = Num 20000\<rparr>, sched_start)
   \<and> Num 20000 = Num (max (1 * spec_unit_factor_ms ''seconds'')
                         (spec_wait_seconds [''waitTimeSeconds'' \<mapsto> JNum (Num 20)] * 1000))"
proof -
  let ?c = "config_of 1 ''seconds'' [''waitTimeSeconds'' \<mapsto> JNum (Num 20)]"
  let ?cl = "\<lparr>queuePath = ''/123456789012/orders'',
              params = base_params @ [''WaitTimeSeconds=20''],
              cl_options = [''waitTimeSeconds'' \<mapsto> JNum (Num 20)],
              delay = Num 20000\<rparr>"
  have h: "trigger example_platform ?c = Inr (?cl, sched_start)"
    by (simp add: trigger_def example_platform_def config_of_def receiveMessageParams_def
        push_defs bind_err_def intervalValue_def unit_seconds_def js_or_def
        string_of_int_def string_of_nat_20)
  have u: "unit ?c \<in> {''seconds'', ''minutes'', ''hours''}"
    by (simp add: config_of_def)
  have w: "opt (options ?c) ''waitTimeSeconds'' = JUndefined
           \<or> is_number (opt (options ?c) ''waitTimeSeconds'')"
    by (simp add: config_of_def)
  from normalized_delay_is_max [OF h u w] h show ?thesis
    by (simp add: config_of_def)
qed

text \<open>
  Claim C7. With an interval of 0 or less, or a delay in milliseconds above 2147483647,
  \<open>trigger\<close> raises an error and returns no instance, so that no timer is armed and no
  cycle runs. When the queue URL parses and the options pass their checks, the error is
  the interval error, respectively the error that the interval value is too large.
\<close>

theorem start_rejects_bad_interval:
  assumes "interval c \<le> 0 \<or> num_gt (intervalValue p c) 2147483647"
  shows "(\<exists>e. trigger p c = Inl e)
       \<and> (\<forall>path ps. url_pathname p (queue c) = Some path
              \<and> receiveMessageParams (options c) = Inr ps \<longrightarrow>
            trigger p c
            = Inl (if interval c \<le> 0
                   then NodeOperationError ''The interval has to be set to at least 1 or higher!''
                   else NodeApiError ''The interval value is too large.''))"
  using assms
  by (auto simp: trigger_def bind_err_def Let_def split: option.splits sum.splits)

text \<open>Claim C7, at an interval of 0 seconds and at an interval of 600 hours.\<close>

theorem start_rejects_bad_interval_witness:
  "interval (config_of 0 ''seconds'' Map.empty) \<le> 0
   \<and> trigger example_platform (config_of 0 ''seconds'' Map.empty)
       = Inl (NodeOperationError ''The interval has to be set to at least 1 or higher!'')
   \<and> num_gt (intervalValue example_platform (config_of 600 ''hours'' Map.empty)) 2147483647
   \<and> trigger example_platform (config_of 600 ''hours'' Map.empty)
       = Inl (NodeApiError ''The interval value is too large.'')"
proof -
  let ?z = "config_of 0 ''seconds'' Map.empty"
  let ?l = "config_of 600 ''hours'' Map.empty"
  have hz: "interval ?z \<le> 0 \<or> num_gt (intervalValue example_platform ?z) 2147483647"
    by (simp add: config_of_def)
  have hl: "interval ?l \<le> 0 \<or> num_gt (intervalValue example_platform ?l) 2147483647"
    by (simp add: config_of_def intervalValue_def unit_seconds_def js_or_def)
  have u: "url_pathname example_platform q = Some ''/123456789012/orders''" for q
    by (simp add: example_platform_def)
  have r: "receiveMessageParams (options (config_of i x Map.empty)) = Inr base_params" for i x
    by (simp add: config_of_def receiveMessageParams_def push_defs bind_err_def)
  from start_rejects_bad_interval [OF hz] u r
  have z: "trigger example_platform ?z
           = Inl (NodeOperationError ''The interval has to be set to at least 1 or higher!'')"
    by (simp add: config_of_def)
  from start_rejects_bad_interval [OF hl] u r
  have l: "trigger example_platform ?l = Inl (NodeApiError ''The interval value is too large.'')"
    by (simp add: config_of_def)
  from z l show ?thesis
    by (simp add: config_of_def intervalValue_def unit_seconds_def js_or_def)
qed

section \<open>Options out of range\<close>

text \<open>
  Claim C3 says that an option out of range is found in each cycle, logged, and that the
  schedule goes on. With \<open>visibilityTimeout = 50000\<close> the call of \<open>trigger\<close> itself
  raises: no instance is started.
\<close>

theorem out_of_range_fails_at_setup_example:
  "trigger example_platform
     (config_of 1 ''seconds'' [''visibilityTimeout'' \<mapsto> JNum (Num 50000)])
   = Inl (NodeOperationError ''Visibility Timeout must be between 0 and 43200 (12 hours).'')"
  by (simp add: trigger_def example_platform_def config_of_def receiveMessageParams_def
      push_defs bind_err_def)

lemma outside_cases:
  "outside v lo hi \<Longrightarrow> \<exists>n. v = JNum (Num n) \<and> n \<noteq> 0 \<and> (n < lo \<or> hi < n)"
  by (cases "(v, lo, hi)" rule: outside.cases) simp_all

lemma out_of_range_params:
  assumes "outside (opt opts ''visibilityTimeout'') 0 43200
           \<or> outside (opt opts ''maxNumberOfMessages'') 1 10
           \<or> outside (opt opts ''waitTimeSeconds'') 0 20"
  shows "\<exists>m. receiveMessageParams opts = Inl (NodeOperationError m)
             \<and> m \<in> {''Visibility Timeout must be between 0 and 43200 (12 hours).'',
                      ''Max Number Of Messages must be between 1 and 10.'',
                      ''Wait Time Seconds must be between 0 and 20.''}"
proof -
  have v: "push_visibilityTimeout opts ps
           = Inl (NodeOperationError ''Visibility Timeout must be between 0 and 43200 (12 hours).'')"
    if "outside (opt opts ''visibilityTimeout'') 0 43200" for ps
    using outside_cases [OF that] by (auto simp: push_visibilityTimeout_def)
  have m: "push_maxNumberOfMessages opts ps
           = Inl (NodeOperationError ''Max Number Of Messages must be between 1 and 10.'')"
    if "outside (opt opts ''maxNumberOfMessages'') 1 10" for ps
    using outside_cases [OF that] by (auto simp: push_maxNumberOfMessages_def)
  have w: "push_waitTimeSeconds opts ps
           = Inl (NodeOperationError ''Wait Time Seconds must be between 0 and 20.'')"
    if "outside (opt opts ''waitTimeSeconds'') 0 20" for ps
    using outside_cases [OF that] by (auto simp: push_waitTimeSeconds_def)
  have vcases: "push_visibilityTimeout opts ps
           = Inl (NodeOperationError ''Visibility Timeout must be between 0 and 43200 (12 hours).'')
           \<or> (\<exists>ps'. push_visibilityTimeout opts ps = Inr ps')" for ps
    by (auto simp: push_visibilityTimeout_def Let_def split: jsval.splits)
  have mcases: "push_maxNumberOfMessages opts ps
           = Inl (NodeOperationError ''Max Number Of Messages must be between 1 and 10.'')
           \<or> (\<exists>ps'. push_maxNumberOfMessages opts ps = Inr ps')" for ps
    by (auto simp: push_maxNumberOfMessages_def Let_def split: jsval.splits)
  from assms consider
      (V) "outside (opt opts ''visibilityTimeout'') 0 43200"
    | (M) "outside (opt opts ''maxNumberOfMessages'') 1 10"
    | (W) "outside (opt opts ''waitTimeSeconds'') 0 20"
    by blast
  then show ?thesis
  proof cases
    case V
    then show ?thesis by (simp add: receiveMessageParams_def bind_err_def v)
  next
    case M
    with vcases [of base_params] show ?thesis
      by (auto simp: receiveMessageParams_def bind_err_def m)
  next
    case W
    from vcases [of base_params] show ?thesis
    proof
      assume "push_visibilityTimeout opts base_params
           = Inl (NodeOperationError ''Visibility Timeout must be between 0 and 43200 (12 hours).'')"
      then show ?thesis by (simp add: receiveMessageParams_def bind_err_def)
    next
      assume "\<exists>ps'. push_visibilityTimeout opts base_params = Inr ps'"
      then obtain ps1 where p1: "push_visibilityTimeout opts base_params = Inr ps1" ..
      from mcases [of ps1] show ?thesis
        by (auto simp: receiveMessageParams_def bind_err_def p1 w [OF W])
    qed
  qed
qed

text \<open>
  Claim C3, amended. When \<open>visibilityTimeout\<close>, \<open>maxNumberOfMessages\<close> or
  \<open>waitTimeSeconds\<close> is a non-zero number outside its documented range, the value is
  found once, at setup: \<open>trigger\<close> raises an error and returns no instance, so that no
  timer is armed and no receive request is sent. When the queue URL parses, the error is a
  \<open>NodeOperationError\<close> with the message of one of the three range checks.
\<close>

theorem out_of_range_option_fails_setup:
  assumes "outside (opt (options c) ''visibilityTimeout'') 0 43200
           \<or> outside (opt (options c) ''maxNumberOfMessages'') 1 10
           \<or> outside (opt (options c) ''waitTimeSeconds'') 0 20"
  shows "(\<exists>e. trigger p c = Inl e)
       \<and> (url_pathname p (queue c) \<noteq> None \<longrightarrow>
            (\<exists>m. trigger p c = Inl (NodeOperationError m)
                 \<and> m \<in> {''Visibility Timeout must be between 0 and 43200 (12 hours).'',
                          ''Max Number Of Messages must be between 1 and 10.'',
                          ''Wait Time Seconds must be between 0 and 20.''}))"
proof -
  from out_of_range_params [OF assms] obtain m
    where m: "receiveMessageParams (options c) = Inl (NodeOperationError m)"
      and mm: "m \<in> {''Visibility Timeout must be between 0 and 43200 (12 hours).'',
                      ''Max Number Of Messages must be between 1 and 10.'',
                      ''Wait Time Seconds must be between 0 and 20.''}"
    by blast
  show ?thesis
  proof (cases "url_pathname p (queue c)")
    case None
    then show ?thesis by (simp add: trigger_def)
  next
    case (Some path)
    then have "trigger p c = Inl (NodeOperationError m)"
      by (simp add: trigger_def bind_err_def m)
    with mm Some show ?thesis by blast
  qed
qed

text \<open>Claim C3, amended, at \<open>maxNumberOfMessages = 11\<close>.\<close>

theorem out_of_range_option_fails_setup_witness:
  "outside (opt (options (config_of 1 ''seconds'' [''maxNumberOfMessages'' \<mapsto> JNum (Num 11)]))
      ''maxNumberOfMessages'') 1 10
   \<and> (\<exists>e. trigger example_platform
             (config_of 1 ''seconds'' [''maxNumberOfMessages'' \<mapsto> JNum (Num 11)]) = Inl e)"
proof -
  let ?c = "config_of 1 ''seconds'' [''maxNumberOfMessages'' \<mapsto> JNum (Num 11)]"
  have h: "outside (opt (options ?c) ''maxNumberOfMessages'') 1 10"
    by (simp add: config_of_def)
  then have "outside (opt (options ?c) ''visibilityTimeout'') 0 43200
           \<or> outside (opt (options ?c) ''maxNumberOfMessages'') 1 10
           \<or> outside (opt (options ?c) ''waitTimeSeconds'') 0 20"
    by blast
  from out_of_range_option_fails_setup [OF this, of example_platform] h
  show ?thesis by blast
qed

section \<open>One cycle: receive, delete, emit\<close>

lemma batch_entries_spec:
  "batch_entries i ms
   = concat (map (\<lambda>j. spec_batch_entry (i + j + 1) (ms ! j)) [0..<length ms])"
proof (induction ms arbitrary: i)
  case Nil
  then show ?case by simp
next
  case (Cons m ms)
  have "[0..<length (m # ms)] = 0 # map Suc [0..<length ms]"
    by (simp add: upt_conv_Cons map_Suc_upt del: upt_Suc)
  then show ?case
    by (simp add: Cons.IH spec_batch_entry_def Let_def comp_def del: upt_Suc)
qed

lemma deleteMessagesParams_spec:
  "ms \<noteq> [] \<Longrightarrow> deleteMessagesParams ms = Inr (spec_delete_request ms)"
  by (cases ms)
     (auto simp: deleteMessagesParams_def spec_delete_request_def batch_entries_spec
       simp del: upt_Suc)

lemma executeTrigger_returns: "fst (executeTrigger env cl) = Inr ()"
  by (simp add: executeTrigger_def try_catch_def logger_error_def split: prod.splits sum.splits)

lemma delete_fails_trace:
  "executeTrigger env_delete_fails example_closure
   = (Inr (),
      [Request ''/q?Action=ReceiveMessage'',
       Request ''/q?Version=2012-11-05&Action=DeleteMessage&ReceiptHandle=AQEB%2Bx%2Fy%3Dz'',
       LogError ''[SQS] receive/delete failed: AccessDenied''])"
  by code_simp

lemma sink_fails_trace:
  "executeTrigger env_sink_fails example_closure
   = (Inr (),
      [Request ''/q?Action=ReceiveMessage'',
       Request ''/q?Version=2012-11-05&Action=DeleteMessage&ReceiptHandle=AQEB%2Bx%2Fy%3Dz'',
       Emit [msg_a],
       LogError ''[SQS] receive/delete failed: workflow failed''])"
  by code_simp

text \<open>
  Claim C1 says that the batch is emitted before the delete request, so that a failing
  delete does not prevent the emission. In a cycle that receives one message and whose
  delete request fails, the failure is logged and nothing is emitted.
\<close>

theorem delete_failure_suppresses_emit_example:
  "executeTrigger env_delete_fails example_closure
   = (Inr (),
      [Request ''/q?Action=ReceiveMessage'',
       Request ''/q?Version=2012-11-05&Action=DeleteMessage&ReceiptHandle=AQEB%2Bx%2Fy%3Dz'',
       LogError ''[SQS] receive/delete failed: AccessDenied''])
   \<and> emissions (snd (executeTrigger env_delete_fails example_closure)) = []"
  by (simp add: delete_fails_trace)

text \<open>
  Claim C1, amended. In a cycle that receives at least one message with
  \<open>deleteMessages\<close> set, the delete request is sent before anything is emitted, and the
  batch is emitted only when the delete request succeeds: when it fails, the failure is
  logged and the cycle ends without an emission; when it succeeds, the whole batch is
  emitted next, in one call.
\<close>

theorem emit_only_after_successful_delete:
  assumes "transport env (request_path cl (params cl)) = Inr field"
      and "field = MsgArray ms \<or> field = MsgSingle m \<and> ms = [m]"
      and "ms \<noteq> []"
      and "truthy (opt (cl_options cl) ''deleteMessages'')"
  shows "\<exists>dps. deleteMessagesParams ms = Inr dps \<and>
           (case transport env (request_path cl dps) of
              Inl e \<Rightarrow>
                executeTrigger env cl
                = (Inr (), [Request (request_path cl (params cl)),
                            Request (request_path cl dps),
                            LogError (failure_log e)])
            | Inr r \<Rightarrow>
                executeTrigger env cl
                = (Inr (), [Request (request_path cl (params cl)),
                            Request (request_path cl dps),
                            Emit ms]
                           @ (case sink env ms of
                                Inl e \<Rightarrow> [LogError (failure_log e)]
                              | Inr u \<Rightarrow> [])))"
proof -
  from assms(3) have dps: "deleteMessagesParams ms = Inr (spec_delete_request ms)"
    by (rule deleteMessagesParams_spec)
  show ?thesis
  proof (cases "transport env (request_path cl (spec_delete_request ms))")
    case (Inl e)
    from cycle_delete_fails [OF assms(1,2,4) dps Inl] dps Inl show ?thesis
      by auto
  next
    case (Inr r)
    from cycle_delete_ok [OF assms(1,2,4) dps Inr] dps Inr show ?thesis
      by (auto simp: deliver_def)
  qed
qed

text \<open>Claim C1, amended, at a cycle whose delete request is refused.\<close>

theorem emit_only_after_successful_delete_witness:
  "transport env_delete_fails (request_path example_closure (params example_closure))
     = Inr (MsgSingle msg_a)
   \<and> truthy (opt (cl_options example_closure) ''deleteMessages'')
   \<and> emissions (snd (executeTrigger env_delete_fails example_closure)) = []
   \<and> logged (snd (executeTrigger env_delete_fails example_closure))
       = [failure_log (Thrown ''AccessDenied'')]"
proof -
  have h1: "transport env_delete_fails (request_path example_closure (params example_closure))
              = Inr (MsgSingle msg_a)"
    by (simp add: env_delete_fails_def example_closure_def request_path_def)
  have h2: "MsgSingle msg_a = MsgArray [msg_a] \<or> MsgSingle msg_a = MsgSingle msg_a \<and> [msg_a] = [msg_a]"
    by simp
  have h3: "[msg_a] \<noteq> []" by simp
  have h4: "truthy (opt (cl_options example_closure) ''deleteMessages'')"
    by (simp add: example_closure_def)
  from emit_only_after_successful_delete [OF h1 h2 h3 h4] obtain dps
    where d: "deleteMessagesParams [msg_a] = Inr dps"
      and c: "(case transport env_delete_fails (request_path example_closure dps) of
              Inl e \<Rightarrow>
                executeTrigger env_delete_fails example_closure
                = (Inr (), [Request (request_path example_closure (params example_closure)),
                            Request (request_path example_closure dps),
                            LogError (failure_log e)])
            | Inr r \<Rightarrow>
                executeTrigger env_delete_fails example_closure
                = (Inr (), [Request (request_path example_closure (params example_closure)),
                            Request (request_path example_closure dps),
                            Emit [msg_a]]
                           @ (case sink env_delete_fails [msg_a] of
                                Inl e \<Rightarrow> [LogError (failure_log e)]
                              | Inr u \<Rightarrow> [])))"
    by blast
  from d have dps: "dps = [''Version=2012-11-05'', ''Action=DeleteMessage'',
                  ''ReceiptHandle='' @ encodeURIComponent (ReceiptHandle msg_a)]"
    by (simp add: deleteMessagesParams_def)
  have f: "transport env_delete_fails (request_path example_closure dps)
           = Inl (Thrown ''AccessDenied'')"
    by (simp add: dps env_delete_fails_def example_closure_def request_path_def)
  from c f h1 h4 show ?thesis by simp
qed

lemma cycle_after_receive:
  assumes "transport env (request_path cl (params cl)) = Inr field"
      and "field = MsgArray ms \<or> field = MsgSingle m \<and> ms = [m]"
  shows "(\<forall>b. Emit b \<notin> set (snd (executeTrigger env cl)))
       \<or> (\<exists>pre. snd (executeTrigger env cl) = pre @ deliver env ms
                \<and> (\<forall>b. Emit b \<notin> set pre) \<and> logged pre = [])"
proof (cases "truthy (opt (cl_options cl) ''deleteMessages'')")
  case False
  from cycle_keep [OF assms False]
  have "snd (executeTrigger env cl) = [Request (request_path cl (params cl))] @ deliver env ms"
    by simp
  then show ?thesis by fastforce
next
  case True
  show ?thesis
  proof (cases "deleteMessagesParams ms")
    case (Inl e)
    from cycle_delete_params_fail [OF assms True Inl] show ?thesis by simp
  next
    case (Inr dps)
    show ?thesis
    proof (cases "transport env (request_path cl dps)")
      case (Inl e)
      from cycle_delete_fails [OF assms True Inr Inl] show ?thesis by simp
    next
      case Inr2: (Inr r)
      from cycle_delete_ok [OF assms True Inr Inr2]
      have "snd (executeTrigger env cl)
            = [Request (request_path cl (params cl)), Request (request_path cl dps)]
              @ deliver env ms"
        by simp
      then show ?thesis by fastforce
    qed
  qed
qed

lemma deliver_failing_sink:
  assumes "Emit b \<in> set (deliver env ms)" and "sink env b = Inl e"
  shows "deliver env ms = [Emit ms, LogError (failure_log e)]"
  using assms by (auto simp: deliver_def split: sum.splits)

text \<open>
  Claim C2 says that an exception of the sink is not caught. In a cycle whose \<open>emit\<close>
  raises, \<open>executeTrigger\<close> returns normally and the exception is logged.
\<close>

theorem sink_failure_not_propagated_example:
  "executeTrigger env_sink_fails example_closure
   = (Inr (),
      [Request ''/q?Action=ReceiveMessage'',
       Request ''/q?Version=2012-11-05&Action=DeleteMessage&ReceiptHandle=AQEB%2Bx%2Fy%3Dz'',
       Emit [msg_a],
       LogError ''[SQS] receive/delete failed: workflow failed''])"
  by (rule sink_fails_trace)

text \<open>
  Claim C2, amended. \<open>executeTrigger\<close> always returns normally. When the \<open>emit\<close> call
  of a cycle raises, the exception is caught by the \<open>catch\<close> of the cycle and logged:
  it is the only entry the cycle logs, and the last thing the cycle does.
\<close>

theorem sink_failure_caught_and_logged:
  "fst (executeTrigger env cl) = Inr ()
   \<and> (\<forall>b e. Emit b \<in> set (snd (executeTrigger env cl)) \<and> sink env b = Inl e \<longrightarrow>
          logged (snd (executeTrigger env cl)) = [failure_log e]
          \<and> last (snd (executeTrigger env cl)) = LogError (failure_log e))"
proof -
  let ?recv = "request_path cl (params cl)"
  let ?tr = "snd (executeTrigger env cl)"
  have emitted: "logged ?tr = [failure_log e] \<and> last ?tr = LogError (failure_log e)"
    if em: "Emit b \<in> set ?tr" and sk: "sink env b = Inl e" for b e
  proof (cases "transport env ?recv")
    case (Inl e')
    with em show ?thesis by (simp add: cycle_receive_fails)
  next
    case (Inr field)
    have received: ?thesis
      if fld: "field = MsgArray ms \<or> field = MsgSingle m \<and> ms = [m]" for ms m
    proof -
      from cycle_after_receive [OF Inr fld] em obtain pre
        where tr: "?tr = pre @ deliver env ms"
          and pre: "\<forall>b. Emit b \<notin> set pre" "logged pre = []"
        by blast
      from em tr pre have "Emit b \<in> set (deliver env ms)" by auto
      from deliver_failing_sink [OF this sk] tr pre show ?thesis by simp
    qed
    show ?thesis
    proof (cases field)
      case MsgAbsent
      with Inr em show ?thesis by (simp add: cycle_no_messages)
    next
      case (MsgSingle m)
      then show ?thesis by (intro received [of "[m]" m]) simp
    next
      case (MsgArray ms)
      then show ?thesis by (intro received [of ms]) simp
    qed
  qed
  with executeTrigger_returns show ?thesis by blast
qed

text \<open>Claim C2, amended, at a cycle whose sink raises.\<close>

theorem sink_failure_caught_and_logged_witness:
  "Emit [msg_a] \<in> set (snd (executeTrigger env_sink_fails example_closure))
   \<and> sink env_sink_fails [msg_a] = Inl (Thrown ''workflow failed'')
   \<and> fst (executeTrigger env_sink_fails example_closure) = Inr ()
   \<and> logged (snd (executeTrigger env_sink_fails example_closure))
       = [failure_log (Thrown ''workflow failed'')]"
proof -
  have h1: "Emit [msg_a] \<in> set (snd (executeTrigger env_sink_fails example_closure))"
    by (simp add: sink_fails_trace)
  have h2: "sink env_sink_fails [msg_a] = Inl (Thrown ''workflow failed'')"
    by (simp add: env_sink_fails_def)
  note w = sink_failure_caught_and_logged [of env_sink_fails example_closure]
  from w have a: "fst (executeTrigger env_sink_fails example_closure) = Inr ()"
    by blast
  from w h1 h2 have b: "logged (snd (executeTrigger env_sink_fails example_closure))
       = [failure_log (Thrown ''workflow failed'')]"
    by blast
  from h1 h2 a b show ?thesis by blast
qed

text \<open>
  Claim C6. In a cycle with \<open>deleteMessages\<close> set that receives the messages \<open>ms\<close>, at
  least one, exactly two requests are sent: the receive request and one delete request.
  For one message it is a \<open>DeleteMessage\<close> with the percent-encoded receipt handle of
  that message; for two or more it is one \<open>DeleteMessageBatch\<close> with an entry for each
  message, in the order received, with the ids \<open>msg1\<close>, \<open>msg2\<close>, ... and the
  percent-encoded receipt handles.
\<close>

theorem delete_request_shape:
  assumes "transport env (request_path cl (params cl)) = Inr field"
      and "field = MsgArray ms \<or> field = MsgSingle m \<and> ms = [m]"
      and "ms \<noteq> []"
      and "truthy (opt (cl_options cl) ''deleteMessages'')"
  shows "requests (snd (executeTrigger env cl))
         = [request_path cl (params cl), request_path cl (spec_delete_request ms)]"
proof -
  from assms(3) have dps: "deleteMessagesParams ms = Inr (spec_delete_request ms)"
    by (rule deleteMessagesParams_spec)
  show ?thesis
  proof (cases "transport env (request_path cl (spec_delete_request ms))")
    case (Inl e)
    from cycle_delete_fails [OF assms(1,2,4) dps Inl] show ?thesis by simp
  next
    case (Inr r)
    from cycle_delete_ok [OF assms(1,2,4) dps Inr] show ?thesis
      by (simp add: deliver_def split: sum.splits)
  qed
qed

text \<open>Claim C6, at a cycle that receives three messages.\<close>

theorem delete_request_shape_witness:
  "transport env_three (request_path example_closure (params example_closure))
     = Inr (MsgArray [msg_a, msg_b, msg_c])
   \<and> truthy (opt (cl_options example_closure) ''deleteMessages'')
   \<and> requests (snd (executeTrigger env_three example_closure))
       = [''/q?Action=ReceiveMessage'',
          ''/q?Version=2012-11-05&Action=DeleteMessageBatch&DeleteMessageBatchRequestEntry.1.Id=msg1&DeleteMessageBatchRequestEntry.1.ReceiptHandle=AQEB%2Bx%2Fy%3Dz&DeleteMessageBatchRequestEntry.2.Id=msg2&DeleteMessageBatchRequestEntry.2.ReceiptHandle=h2&DeleteMessageBatchRequestEntry.3.Id=msg3&DeleteMessageBatchRequestEntry.3.ReceiptHandle=h3'']"
proof -
  have h1: "transport env_three (request_path example_closure (params example_closure))
              = Inr (MsgArray [msg_a, msg_b, msg_c])"
    by (simp add: env_three_def example_closure_def request_path_def)
  have h2: "MsgArray [msg_a, msg_b, msg_c] = MsgArray [msg_a, msg_b, msg_c]
            \<or> MsgArray [msg_a, msg_b, msg_c] = MsgSingle msg_a \<and> [msg_a, msg_b, msg_c] = [msg_a]"
    by simp
  have h3: "[msg_a, msg_b, msg_c] \<noteq> []" by simp
  have h4: "truthy (opt (cl_options example_closure) ''deleteMessages'')"
    by (simp add: example_closure_def)
  have p1: "request_path example_closure (params example_closure) = ''/q?Action=ReceiveMessage''"
    by code_simp
  have p2: "request_path example_closure (spec_delete_request [msg_a, msg_b, msg_c])
            = ''/q?Version=2012-11-05&Action=DeleteMessageBatch&DeleteMessageBatchRequestEntry.1.Id=msg1&DeleteMessageBatchRequestEntry.1.ReceiptHandle=AQEB%2Bx%2Fy%3Dz&DeleteMessageBatchRequestEntry.2.Id=msg2&DeleteMessageBatchRequestEntry.2.ReceiptHandle=h2&DeleteMessageBatchRequestEntry.3.Id=msg3&DeleteMessageBatchRequestEntry.3.ReceiptHandle=h3''"
    by code_simp
  from delete_request_shape [OF h1 h2 h3 h4] h1 h4 show ?thesis
    by (simp only: p1 p2)
qed

end
